theory Spec2Isabelle
  imports Main
begin

section \<open>Python values, exceptions and the collaborators of the micro agent\<close>

text \<open>
  The values that \<^verbatim>\<open>json.loads\<close> and the YAML agent definitions produce.
  A dictionary is an association list read with \<open>map_of\<close>.
\<close>

datatype pyval =
    PNone
  | PBool bool
  | PInt int
  | PStr string
  | PList "pyval list"
  | PDict "(string \<times> pyval) list"

text \<open>
  The exceptions that \<^verbatim>\<open>agenthub/micro/agent.py\<close> raises or lets through.
  \<open>LLMOutputError msg cause\<close> carries the message and the \<^verbatim>\<open>__cause__\<close> set by
  \<^verbatim>\<open>raise ... from e\<close> (\<open>None\<close> for a plain \<^verbatim>\<open>raise\<close>).
\<close>

datatype exn =
    JSONDecodeError string
  | LLMOutputError string "exn option"
  | ValueError string
  | KeyError string
  | IndexError string
  | TypeError string
  | OtherError string

text \<open>
  The outcome classes of \<^verbatim>\<open>opendevin.events.observation\<close>: the code only asks whether
  an observation is a \<^verbatim>\<open>CmdOutputObservation\<close> and, if so, reads its \<^verbatim>\<open>exit_code\<close>.
\<close>

datatype observation =
    CmdOutputObservation (exit_code: int) string
  | OtherObservation string

text \<open>
  \<^verbatim>\<open>opendevin.controller.state.state.State\<close>, restricted to the two attributes the
  agent touches.
\<close>

record 'a state =
  updated_info :: "('a \<times> observation) list"
  num_of_chars :: int

text \<open>
  What the module imports and calls but does not define: the JSON decoder, the action
  classes and their factory, the template renderer, the completion service and the
  registry of micro agents. The action type \<open>'a\<close> is left open; \<open>action_attr\<close> reads the
  \<^verbatim>\<open>.action\<close> attribute of an action.
\<close>

record 'a env =
  json_loads :: "string \<Rightarrow> exn + pyval"
  action_from_dict :: "pyval \<Rightarrow> exn + 'a"
  AgentFinishAction :: 'a
  AgentRejectAction :: 'a
  action_attr :: "'a \<Rightarrow> string"
  render :: "pyval \<Rightarrow> 'a state \<Rightarrow> (string \<times> pyval) list \<Rightarrow> pyval \<Rightarrow> exn + string"
  completion :: "string \<Rightarrow> exn + string"
  all_microagents :: "(string \<times> pyval) list"

section \<open>\<^verbatim>\<open>parse_response\<close>\<close>

text \<open>
  Python's \<^verbatim>\<open>xs[a:b]\<close>: negative bounds count from the end, and both bounds are
  clamped to the length.
\<close>

definition py_slice :: "'b list \<Rightarrow> int \<Rightarrow> int \<Rightarrow> 'b list" where
  "py_slice xs a b =
     (let n = int (length xs);
          a' = (if a < 0 then max 0 (a + n) else min a n);
          b' = (if b < 0 then max 0 (b + n) else min b n)
      in take (nat (b' - a')) (drop (nat a') xs))"

text \<open>
  The handler \<^verbatim>\<open>except json.JSONDecodeError as e: raise LLMOutputError(...) from e\<close>:
  a \<open>JSONDecodeError\<close> is wrapped, every other exception passes through unchanged.
\<close>

definition except_JSONDecodeError :: "exn \<Rightarrow> exn" where
  "except_JSONDecodeError e =
     (case e of
        JSONDecodeError m \<Rightarrow>
          LLMOutputError
            ''Invalid JSON in response. Please make sure the response is a valid JSON object.''
            (Some e)
      | _ \<Rightarrow> e)"

text \<open>The \<^verbatim>\<open>try\<close> block of lines 34 to 41: both calls are inside it.\<close>

definition try_decode :: "('a, 'z) env_scheme \<Rightarrow> string \<Rightarrow> exn + 'a" where
  "try_decode ev response =
     (case json_loads ev response of
        Inl e \<Rightarrow> Inl (except_JSONDecodeError e)
      | Inr action_dict \<Rightarrow>
          (case action_from_dict ev action_dict of
             Inl e \<Rightarrow> Inl (except_JSONDecodeError e)
           | Inr action \<Rightarrow> Inr action))"

definition no_object_error :: exn where
  "no_object_error = LLMOutputError ''No valid JSON object found in response.'' None"

text \<open>
  The \<^verbatim>\<open>for i, char in enumerate(orig_response)\<close> loop, with the loop variables
  \<open>depth\<close>, \<open>start\<close> and \<open>i\<close> as arguments and the characters still to be read as the
  last argument. A string is a list of bytes here and a list of code points in Python;
  the two scans agree, because no byte of a multi-byte UTF-8 sequence is a brace.
\<close>

fun parse_loop :: "('a, 'z) env_scheme \<Rightarrow> string \<Rightarrow> int \<Rightarrow> int \<Rightarrow> nat \<Rightarrow> string \<Rightarrow> exn + 'a" where
  "parse_loop ev orig depth start i [] = Inl no_object_error"
| "parse_loop ev orig depth start i (c # cs) =
     (if c = CHR ''{'' then
        parse_loop ev orig (depth + 1) (if depth = 0 then int i else start) (Suc i) cs
      else if c = CHR ''}'' then
        (if depth - 1 = 0 \<and> start \<noteq> - 1 then
           try_decode ev (py_slice orig start (int i + 1))
         else parse_loop ev orig (depth - 1) start (Suc i) cs)
      else parse_loop ev orig depth start (Suc i) cs)"

definition parse_response :: "('a, 'z) env_scheme \<Rightarrow> string \<Rightarrow> exn + 'a" where
  "parse_response ev orig_response = parse_loop ev orig_response 0 (- 1) 0 orig_response"

section \<open>Brace depth and balanced regions\<close>

text \<open>The number of opening braces minus the number of closing braces of a text.\<close>

fun brace_depth :: "string \<Rightarrow> int" where
  "brace_depth [] = 0"
| "brace_depth (c # cs) =
     (if c = CHR ''{'' then 1 else if c = CHR ''}'' then - 1 else 0) + brace_depth cs"

text \<open>
  A balanced region: it opens with a brace, its depth is positive after every proper
  nonempty prefix, and it is zero at its end.
\<close>

definition balanced_region :: "string \<Rightarrow> bool" where
  "balanced_region r \<longleftrightarrow>
     r \<noteq> [] \<and> hd r = CHR ''{'' \<and> brace_depth r = 0 \<and>
     (\<forall>n\<in>{1..<length r}. 0 < brace_depth (take n r))"

text \<open>
  \<open>started p\<close>: somewhere in \<open>p\<close> an opening brace stands at depth zero, so the loop has
  recorded a start after reading \<open>p\<close>. \<open>closes_at t i\<close>: the character at index \<open>i\<close> is a
  closing brace that brings the depth back to zero when a start is recorded.
\<close>

definition started :: "string \<Rightarrow> bool" where
  "started p \<longleftrightarrow> (\<exists>j<length p. p ! j = CHR ''{'' \<and> brace_depth (take j p) = 0)"

definition closes_at :: "string \<Rightarrow> nat \<Rightarrow> bool" where
  "closes_at t i \<longleftrightarrow>
     i < length t \<and> t ! i = CHR ''}'' \<and> brace_depth (take (Suc i) t) = 0 \<and> started (take i t)"

definition never_closes :: "string \<Rightarrow> bool" where
  "never_closes t \<longleftrightarrow> (\<forall>i<length t. \<not> closes_at t i)"

section \<open>The workflow driver of \<^verbatim>\<open>MicroAgent\<close>\<close>

text \<open>
  An agent definition is a dictionary loaded from YAML. The model keeps the keys the
  code reads: \<^verbatim>\<open>name\<close> and \<^verbatim>\<open>workflow\<close> of the definition, \<^verbatim>\<open>name\<close> and \<^verbatim>\<open>do\<close> of a
  step. A key that may be absent is an \<open>option\<close>; the \<^verbatim>\<open>do\<close> mapping stays a dictionary.
\<close>

record step_def =
  step_name :: "string option"
  step_do :: "(string \<times> pyval) list option"

record agent_def =
  agent_name :: "string option"
  workflow :: "step_def list option"

record micro_agent =
  agent_definition :: agent_def
  prompt :: string
  delegates :: "(string \<times> pyval) list"
  workflow_step :: int
  workflow_data :: "string \<rightharpoonup> observation"

text \<open>\<^verbatim>\<open>key in d\<close> and \<^verbatim>\<open>d.get(key, default)\<close> on a dictionary.\<close>

definition py_in :: "string \<Rightarrow> (string \<times> pyval) list \<Rightarrow> bool" where
  "py_in k d \<longleftrightarrow> map_of d k \<noteq> None"

definition py_get :: "(string \<times> pyval) list \<Rightarrow> string \<Rightarrow> pyval \<Rightarrow> pyval" where
  "py_get d k dflt = (case map_of d k of None \<Rightarrow> dflt | Some v \<Rightarrow> v)"

text \<open>\<^verbatim>\<open>xs[i]\<close> on a list: a negative index counts from the end, out of range raises.\<close>

definition py_getitem :: "'b list \<Rightarrow> int \<Rightarrow> exn + 'b" where
  "py_getitem xs i =
     (if 0 \<le> i \<and> i < int (length xs) then Inr (xs ! nat i)
      else if i < 0 \<and> - int (length xs) \<le> i then Inr (xs ! nat (int (length xs) + i))
      else Inl (IndexError ''list index out of range''))"

text \<open>\<^verbatim>\<open>len(v)\<close>; a string is counted in bytes here.\<close>

definition py_len :: "pyval \<Rightarrow> exn + nat" where
  "py_len v =
     (case v of
        PStr s \<Rightarrow> Inr (length s)
      | PList xs \<Rightarrow> Inr (length xs)
      | PDict d \<Rightarrow> Inr (length d)
      | _ \<Rightarrow> Inl (TypeError ''object has no len()''))"

text \<open>
  \<^verbatim>\<open>MicroAgent.__init__\<close>: the class attributes \<^verbatim>\<open>agent_definition\<close> and \<^verbatim>\<open>prompt\<close> are
  arguments. \<^verbatim>\<open>del self.delegates[name]\<close> raises \<open>KeyError\<close> for a name that is not
  registered.
\<close>

definition MicroAgent_init :: "('a, 'z) env_scheme \<Rightarrow> agent_def \<Rightarrow> string \<Rightarrow> exn + micro_agent" where
  "MicroAgent_init ev defn pr =
     (case agent_name defn of
        None \<Rightarrow> Inl (ValueError ''Agent definition must contain a name'')
      | Some n \<Rightarrow>
          (if \<not> py_in n (all_microagents ev) then Inl (KeyError n)
           else Inr \<lparr>agent_definition = defn, prompt = pr,
                     delegates = filter (\<lambda>kv. fst kv \<noteq> n) (all_microagents ev),
                     workflow_step = 0, workflow_data = Map.empty\<rparr>))"

fun validate_observation :: "'a \<Rightarrow> observation \<Rightarrow> bool" where
  "validate_observation action (CmdOutputObservation code content) = (code = 0)"
| "validate_observation action (OtherObservation content) = True"

text \<open>
  The loop of \<^verbatim>\<open>update_previous_workflow_step\<close> over \<^verbatim>\<open>state.updated_info\<close>.
  \<^verbatim>\<open>prev_step['do']\<close> is read for every pair and \<^verbatim>\<open>prev_step['name']\<close> for every
  matching pair; a missing key raises \<open>KeyError\<close>. \<^verbatim>\<open>action.action\<close> is a string, so it
  equals the mapping's entry exactly when that entry is the same string.
\<close>

fun update_loop ::
  "('a, 'z) env_scheme \<Rightarrow> step_def \<Rightarrow> micro_agent \<Rightarrow> ('a \<times> observation) list \<Rightarrow>
   (exn + bool) \<times> micro_agent" where
  "update_loop ev prev_step self [] = (Inr True, self)"
| "update_loop ev prev_step self ((action, obs) # rest) =
     (case step_do prev_step of
        None \<Rightarrow> (Inl (KeyError ''do''), self)
      | Some d \<Rightarrow>
          (if py_in ''action'' d \<and> map_of d ''action'' = Some (PStr (action_attr ev action)) then
             (case step_name prev_step of
                None \<Rightarrow> (Inl (KeyError ''name''), self)
              | Some n \<Rightarrow>
                  (let self' = self\<lparr>workflow_data := (workflow_data self)(n \<mapsto> obs)\<rparr>
                   in if \<not> validate_observation action obs then (Inr False, self')
                      else update_loop ev prev_step self' rest))
           else update_loop ev prev_step self rest))"

definition update_previous_workflow_step ::
  "('a, 'z) env_scheme \<Rightarrow> micro_agent \<Rightarrow> ('a, 'y) state_scheme \<Rightarrow> (exn + bool) \<times> micro_agent" where
  "update_previous_workflow_step ev self st =
     (case workflow (agent_definition self) of
        None \<Rightarrow> (Inl (KeyError ''workflow''), self)
      | Some steps \<Rightarrow>
          (case py_getitem steps (workflow_step self - 1) of
             Inl e \<Rightarrow> (Inl e, self)
           | Inr prev_step \<Rightarrow> update_loop ev prev_step self (updated_info st)))"

text \<open>
  \<^verbatim>\<open>prompt_to_action\<close>: render, ask the completion service, count the characters, then
  parse. \<open>completion\<close> stands for the call and the extraction of the message content.
\<close>

definition prompt_to_action ::
  "'a env \<Rightarrow> micro_agent \<Rightarrow> pyval \<Rightarrow> 'a state \<Rightarrow> pyval \<Rightarrow> (exn + 'a) \<times> 'a state" where
  "prompt_to_action ev self prmpt st inputs =
     (case render ev prmpt st (delegates self) inputs of
        Inl e \<Rightarrow> (Inl e, st)
      | Inr rendered \<Rightarrow>
          (case completion ev rendered of
             Inl e \<Rightarrow> (Inl e, st)
           | Inr action_resp \<Rightarrow>
               (case py_len prmpt of
                  Inl e \<Rightarrow> (Inl e, st)
                | Inr n \<Rightarrow>
                    (parse_response ev action_resp,
                     st\<lparr>num_of_chars := num_of_chars st + int n + int (length action_resp)\<rparr>))))"

text \<open>
  \<^verbatim>\<open>step_workflow\<close>: the result is the returned action or the raised exception, together
  with the agent and the state as the call leaves them.
\<close>

definition step_workflow ::
  "'a env \<Rightarrow> micro_agent \<Rightarrow> 'a state \<Rightarrow> (exn + 'a) \<times> micro_agent \<times> 'a state" where
  "step_workflow ev self st =
     (case workflow (agent_definition self) of
        None \<Rightarrow> (Inl (KeyError ''workflow''), self, st)
      | Some steps \<Rightarrow>
          (if workflow_step self \<ge> int (length steps) then (Inr (AgentFinishAction ev), self, st)
           else
             (case (if workflow_step self > 0 then update_previous_workflow_step ev self st
                    else (Inr True, self)) of
                (Inl e, self1) \<Rightarrow> (Inl e, self1, st)
              | (Inr ok, self1) \<Rightarrow>
                  (if \<not> ok then (Inr (AgentRejectAction ev), self1, st)
                   else
                     (case py_getitem steps (workflow_step self1) of
                        Inl e \<Rightarrow> (Inl e, self1, st)
                      | Inr stp \<Rightarrow>
                          (let self2 = self1\<lparr>workflow_step := workflow_step self1 + 1\<rparr>;
                               d = (case step_do stp of None \<Rightarrow> [] | Some d' \<Rightarrow> d')
                           in if py_in ''action'' d then
                                (case action_from_dict ev (PDict d) of
                                   Inl e \<Rightarrow> (Inl e, self2, st)
                                 | Inr action \<Rightarrow> (Inr action, self2, st))
                              else if py_in ''prompt'' d then
                                (case prompt_to_action ev self2 (py_get d ''prompt'' PNone) st
                                        (py_get d ''inputs'' (PDict [])) of
                                   (r, st') \<Rightarrow> (r, self2, st'))
                              else
                                (Inl (ValueError ''Step must contain either an action or a prompt''),
                                 self2, st)))))))"

definition step :: "'a env \<Rightarrow> micro_agent \<Rightarrow> 'a state \<Rightarrow> (exn + 'a) \<times> micro_agent \<times> 'a state" where
  "step ev self st =
     (if workflow (agent_definition self) \<noteq> None then step_workflow ev self st
      else (case prompt_to_action ev self (PStr (prompt self)) st (PDict []) of
              (r, st') \<Rightarrow> (r, self, st')))"

text \<open>
  Successive calls of \<^verbatim>\<open>step_workflow\<close> on one agent, one state per call (the
  controller refreshes \<^verbatim>\<open>updated_info\<close> between calls). Each entry is the result of a
  call and the agent after it.
\<close>

fun run_workflow :: "'a env \<Rightarrow> micro_agent \<Rightarrow> 'a state list \<Rightarrow> ((exn + 'a) \<times> micro_agent) list" where
  "run_workflow ev self [] = []"
| "run_workflow ev self (st # sts) =
     (case step_workflow ev self st of
        (r, self', st') \<Rightarrow> (r, self') # run_workflow ev self' sts)"

section \<open>Vocabulary for the claims about the workflow\<close>

text \<open>
  The pairs of a log whose action carries the discriminator of the step's fixed action:
  the pairs for which the condition of the loop in \<^verbatim>\<open>update_previous_workflow_step\<close>
  holds. A step without \<^verbatim>\<open>do\<close> or without a fixed action matches nothing.
\<close>

definition matching ::
  "('a, 'z) env_scheme \<Rightarrow> step_def \<Rightarrow> ('a \<times> observation) list \<Rightarrow> ('a \<times> observation) list" where
  "matching ev prev_step log =
     (case step_do prev_step of
        None \<Rightarrow> []
      | Some d \<Rightarrow> filter (\<lambda>p. map_of d ''action'' = Some (PStr (action_attr ev (fst p)))) log)"

definition acceptable :: "'a \<times> observation \<Rightarrow> bool" where
  "acceptable p = validate_observation (fst p) (snd p)"

text \<open>
  The matching pairs that the loop gets to see: the acceptable ones at the front and the
  first one that is not acceptable, if there is one.
\<close>

definition examined :: "('a \<times> observation) list \<Rightarrow> ('a \<times> observation) list" where
  "examined ms = takeWhile acceptable ms @ take 1 (dropWhile acceptable ms)"

text \<open>Writing the observations of a list of pairs under one name, in order.\<close>

fun record_all ::
  "string \<Rightarrow> ('a \<times> observation) list \<Rightarrow> (string \<rightharpoonup> observation) \<Rightarrow> (string \<rightharpoonup> observation)" where
  "record_all n [] m = m"
| "record_all n (p # ps) m = record_all n ps (m(n \<mapsto> snd p))"

text \<open>
  A step with a name and a fixed action from which the factory builds the command \<open>c\<close>.
\<close>

definition fixed_command :: "('a, 'z) env_scheme \<Rightarrow> step_def \<Rightarrow> 'a \<Rightarrow> bool" where
  "fixed_command ev stp c \<longleftrightarrow>
     step_name stp \<noteq> None \<and>
     (case step_do stp of
        None \<Rightarrow> False
      | Some d \<Rightarrow> py_in ''action'' d \<and> action_from_dict ev (PDict d) = Inr c)"

text \<open>Every pair of the state's log that matches the step is acceptable.\<close>

definition accepted :: "('a, 'z) env_scheme \<Rightarrow> step_def \<Rightarrow> ('a, 'y) state_scheme \<Rightarrow> bool" where
  "accepted ev prev_step st \<longleftrightarrow> list_all acceptable (matching ev prev_step (updated_info st))"

section \<open>A concrete environment for the examples\<close>

text \<open>
  The theorems below hold for every environment. For their examples the collaborators are
  instantiated: actions are the dictionaries they were built from, the decoder knows a
  handful of texts, and the factory asks for a string under \<^verbatim>\<open>action\<close>.
\<close>

definition demo_loads :: "string \<Rightarrow> exn + pyval" where
  "demo_loads s =
     (if s = ''{\"action\":\"run\",\"args\":{\"command\":\"ls\"}}'' then
        Inr (PDict [(''action'', PStr ''run''), (''args'', PDict [(''command'', PStr ''ls'')])])
      else if s = ''{\"action\":\"run\"}'' then Inr (PDict [(''action'', PStr ''run'')])
      else if s = ''{\"a\": {\"b\": 1}}'' then Inr (PDict [(''a'', PDict [(''b'', PInt 1)])])
      else if s = ''{\"x\":1}'' then Inr (PDict [(''x'', PInt 1)])
      else Inl (JSONDecodeError ''Expecting property name enclosed in double quotes''))"

definition demo_factory :: "pyval \<Rightarrow> exn + pyval" where
  "demo_factory v =
     (case v of
        PDict d \<Rightarrow>
          (case map_of d ''action'' of
             Some (PStr k) \<Rightarrow> Inr v
           | _ \<Rightarrow> Inl (LLMOutputError ''action key is not found'' None))
      | _ \<Rightarrow> Inl (LLMOutputError ''action must be a dictionary'' None))"

definition demo_attr :: "pyval \<Rightarrow> string" where
  "demo_attr v =
     (case v of
        PDict d \<Rightarrow> (case map_of d ''action'' of Some (PStr k) \<Rightarrow> k | _ \<Rightarrow> [])
      | _ \<Rightarrow> [])"

definition demo_render :: "pyval \<Rightarrow> pyval state \<Rightarrow> (string \<times> pyval) list \<Rightarrow> pyval \<Rightarrow> exn + string" where
  "demo_render p st dl inputs =
     (case p of PStr s \<Rightarrow> Inr s | _ \<Rightarrow> Inl (TypeError ''template source must be a string''))"

definition demo_env :: "pyval env" where
  "demo_env =
     \<lparr>json_loads = demo_loads,
      action_from_dict = demo_factory,
      AgentFinishAction = PDict [(''action'', PStr ''finish'')],
      AgentRejectAction = PDict [(''action'', PStr ''reject'')],
      action_attr = demo_attr,
      render = demo_render,
      completion = (\<lambda>rendered. Inr ''Sure! {\"action\":\"run\"} Done.''),
      all_microagents = [(''demo'', PDict []), (''other'', PDict [])]\<rparr>"

text \<open>
  A registered agent called \<^verbatim>\<open>demo\<close> with the given steps, as the constructor leaves it,
  two steps with fixed actions, the actions the factory builds from them, and a step with
  neither an action nor a prompt.
\<close>

definition demo_agent :: "step_def list \<Rightarrow> micro_agent" where
  "demo_agent steps =
     \<lparr>agent_definition = \<lparr>agent_name = Some ''demo'', workflow = Some steps\<rparr>,
      prompt = [],
      delegates = [(''other'', PDict [])],
      workflow_step = 0,
      workflow_data = Map.empty\<rparr>"

definition demo_run :: pyval where
  "demo_run = PDict [(''action'', PStr ''run''), (''args'', PDict [(''command'', PStr ''echo hi'')])]"

definition demo_say :: pyval where
  "demo_say = PDict [(''action'', PStr ''message''), (''args'', PDict [(''content'', PStr ''done'')])]"

definition step_s0 :: step_def where
  "step_s0 =
     \<lparr>step_name = Some ''s0'',
      step_do = Some [(''action'', PStr ''run''), (''args'', PDict [(''command'', PStr ''echo hi'')])]\<rparr>"

definition step_s1 :: step_def where
  "step_s1 =
     \<lparr>step_name = Some ''s1'',
      step_do = Some [(''action'', PStr ''message''), (''args'', PDict [(''content'', PStr ''done'')])]\<rparr>"

definition step_empty :: step_def where
  "step_empty = \<lparr>step_name = Some ''s0'', step_do = Some []\<rparr>"

definition step_both :: step_def where
  "step_both =
     \<lparr>step_name = Some ''s0'',
      step_do = Some [(''action'', PStr ''run''), (''prompt'', PStr ''say done'')]\<rparr>"

definition demo_state :: "(pyval \<times> observation) list \<Rightarrow> pyval state" where
  "demo_state log = \<lparr>updated_info = log, num_of_chars = 0\<rparr>"

section \<open>Facts about the scan\<close>

lemma brace_depth_append: "brace_depth (xs @ ys) = brace_depth xs + brace_depth ys"
  by (induction xs) auto

lemma py_slice_nat:
  "a \<le> b \<Longrightarrow> b \<le> length xs \<Longrightarrow> py_slice xs (int a) (int b) = take (b - a) (drop a xs)"
  by (simp add: py_slice_def Let_def min_def nat_diff_distrib')

lemma started_snoc:
  "started (p @ [c]) \<longleftrightarrow> started p \<or> (c = CHR ''{'' \<and> brace_depth p = 0)"
proof -
  have "started (p @ [c]) \<longleftrightarrow>
        (\<exists>j<Suc (length p). (p @ [c]) ! j = CHR ''{'' \<and> brace_depth (take j (p @ [c])) = 0)"
    by (simp add: started_def)
  also have "\<dots> \<longleftrightarrow> (\<exists>j<length p. (p @ [c]) ! j = CHR ''{'' \<and> brace_depth (take j (p @ [c])) = 0)
                   \<or> ((p @ [c]) ! length p = CHR ''{'' \<and> brace_depth (take (length p) (p @ [c])) = 0)"
    by (simp add: less_Suc_eq ex_disj_distrib conj_disj_distribL conj_disj_distribR)
  also have "\<dots> \<longleftrightarrow> started p \<or> (c = CHR ''{'' \<and> brace_depth p = 0)"
    by (auto simp: started_def nth_append)
  finally show ?thesis .
qed

lemma closes_at_here:
  "closes_at (p @ c # q) (length p) \<longleftrightarrow> c = CHR ''}'' \<and> brace_depth p = 1 \<and> started p"
  by (auto simp: closes_at_def brace_depth_append)

lemma parse_loop_prefix:
  assumes "never_closes (p @ pre)" and "s \<noteq> - 1 \<longleftrightarrow> started p"
  shows "\<exists>s'. (s' \<noteq> - 1 \<longleftrightarrow> started (p @ pre)) \<and>
           parse_loop ev orig (brace_depth p) s (length p) (pre @ rest) =
           parse_loop ev orig (brace_depth (p @ pre)) s' (length p + length pre) rest"
  using assms
proof (induction pre arbitrary: p s)
  case Nil
  then show ?case by auto
next
  case (Cons c pre)
  have nc: "never_closes ((p @ [c]) @ pre)" using Cons.prems(1) by simp
  have here: "\<not> closes_at (p @ c # pre) (length p)"
    using Cons.prems(1) by (simp add: never_closes_def)
  define s1 where "s1 = (if c = CHR ''{'' \<and> brace_depth p = 0 then int (length p) else s)"
  have s1: "s1 \<noteq> - 1 \<longleftrightarrow> started (p @ [c])"
    using Cons.prems(2) by (auto simp: s1_def started_snoc)
  have ih: "\<exists>s'. (s' \<noteq> - 1 \<longleftrightarrow> started (p @ c # pre)) \<and>
           parse_loop ev orig (brace_depth (p @ [c])) s1 (Suc (length p)) (pre @ rest) =
           parse_loop ev orig (brace_depth (p @ c # pre)) s' (length p + length (c # pre)) rest"
    using Cons.IH[OF nc s1] by simp
  have notclose: "\<not> (c = CHR ''}'' \<and> brace_depth p = 1 \<and> s \<noteq> - 1)"
    using here Cons.prems(2) by (simp add: closes_at_here)
  have step: "parse_loop ev orig (brace_depth p) s (length p) ((c # pre) @ rest) =
              parse_loop ev orig (brace_depth (p @ [c])) s1 (Suc (length p)) (pre @ rest)"
  proof (cases "c = CHR ''{''")
    case True
    then show ?thesis by (simp add: brace_depth_append s1_def)
  next
    case False
    note nopen = this
    show ?thesis
    proof (cases "c = CHR ''}''")
      case True
      then have "\<not> (brace_depth p - 1 = 0 \<and> s \<noteq> - 1)" using notclose by auto
      then have "brace_depth p - 1 \<noteq> 0 \<or> s = - 1" by blast
      then show ?thesis using True
        by (cases "brace_depth p - 1 = 0") (simp_all add: brace_depth_append s1_def)
    next
      case False
      then show ?thesis using nopen by (simp add: brace_depth_append s1_def)
    qed
  qed
  show ?case unfolding step by (rule ih)
qed

lemma parse_loop_inside:
  assumes "\<forall>n\<le>length body. 1 \<le> d + brace_depth (take n body)"
    and "d + brace_depth body = 1"
  shows "parse_loop ev orig d (int st) i (body @ CHR ''}'' # post) =
         try_decode ev (py_slice orig (int st) (int (i + length body) + 1))"
  using assms
proof (induction body arbitrary: d i)
  case Nil
  then show ?case by simp
next
  case (Cons c body)
  define d' where "d' = d + brace_depth [c]"
  have d1: "1 \<le> d" using Cons.prems(1)[rule_format, of 0] by simp
  have d'1: "1 \<le> d'" using Cons.prems(1)[rule_format, of 1] by (simp add: d'_def)
  have a: "\<forall>n\<le>length body. 1 \<le> d' + brace_depth (take n body)"
  proof (intro allI impI)
    fix n assume "n \<le> length body"
    then show "1 \<le> d' + brace_depth (take n body)"
      using Cons.prems(1)[rule_format, of "Suc n"] by (simp add: d'_def)
  qed
  have b: "d' + brace_depth body = 1" using Cons.prems(2) by (simp add: d'_def)
  have step: "parse_loop ev orig d (int st) i ((c # body) @ CHR ''}'' # post) =
              parse_loop ev orig d' (int st) (Suc i) (body @ CHR ''}'' # post)"
    using d1 d'1 by (auto simp: d'_def)
  show ?case using Cons.IH[OF a b, of "Suc i"] step by simp
qed

lemma balanced_region_shape:
  assumes "balanced_region r"
  obtains body where "r = CHR ''{'' # body @ [CHR ''}'']"
    and "\<forall>n\<le>length body. 1 \<le> 1 + brace_depth (take n body)"
    and "1 + brace_depth body = 1"
proof -
  from assms obtain r' where r: "r = CHR ''{'' # r'"
    by (cases r) (auto simp: balanced_region_def)
  have d0: "brace_depth r = 0" using assms by (simp add: balanced_region_def)
  have pos: "\<And>n. 1 \<le> n \<Longrightarrow> n < length r \<Longrightarrow> 0 < brace_depth (take n r)"
    using assms by (simp add: balanced_region_def)
  have "r' \<noteq> []" using d0 r by auto
  then obtain body c where r': "r' = body @ [c]" by (metis rev_exhaust)
  have "0 < brace_depth (take (Suc (length body)) r)"
    using pos[of "Suc (length body)"] by (simp add: r r')
  then have db: "0 < 1 + brace_depth body" by (simp add: r r')
  have c: "c = CHR ''}''"
    using d0 db by (simp add: r r' brace_depth_append split: if_splits)
  have b0: "1 + brace_depth body = 1"
    using d0 by (simp add: r r' c brace_depth_append)
  have pre: "\<forall>n\<le>length body. 1 \<le> 1 + brace_depth (take n body)"
  proof (intro allI impI)
    fix n assume n: "n \<le> length body"
    have "0 < brace_depth (take (Suc n) r)"
      using pos[of "Suc n"] n by (simp add: r r')
    then show "1 \<le> 1 + brace_depth (take n body)"
      using n by (simp add: r r')
  qed
  have "r = CHR ''{'' # body @ [CHR ''}'']" by (simp add: r r' c)
  then show ?thesis using pre b0 by (rule that)
qed

lemma parse_loop_region:
  assumes "balanced_region obj" and "orig = p @ obj @ post"
  shows "parse_loop ev orig 0 s (length p) (obj @ post) = try_decode ev obj"
proof -
  from assms(1) obtain body where obj: "obj = CHR ''{'' # body @ [CHR ''}'']"
    and a: "\<forall>n\<le>length body. 1 \<le> 1 + brace_depth (take n body)"
    and b: "1 + brace_depth body = 1"
    by (rule balanced_region_shape)
  have "parse_loop ev orig 0 s (length p) (obj @ post) =
        parse_loop ev orig 1 (int (length p)) (Suc (length p)) (body @ CHR ''}'' # post)"
    by (simp add: obj)
  also have "\<dots> = try_decode ev (py_slice orig (int (length p)) (int (Suc (length p) + length body) + 1))"
    by (rule parse_loop_inside[OF a b])
  also have "py_slice orig (int (length p)) (int (Suc (length p) + length body) + 1) = obj"
  proof -
    have e: "int (Suc (length p) + length body) + 1 = int (length p + length obj)"
      by (simp add: obj)
    have "py_slice orig (int (length p)) (int (length p + length obj)) = obj"
      by (subst py_slice_nat) (simp_all add: assms(2))
    then show ?thesis by (simp only: e)
  qed
  finally show ?thesis .
qed

lemma first_region_decoded:
  assumes "never_closes pre" and "brace_depth pre = 0" and "balanced_region obj"
  shows "parse_response ev (pre @ obj @ post) = try_decode ev obj"
proof -
  have nc: "never_closes ([] @ pre)" using assms(1) by simp
  have s: "(- 1 :: int) \<noteq> - 1 \<longleftrightarrow> started []" by (simp add: started_def)
  from parse_loop_prefix[OF nc s, of ev "pre @ obj @ post" "obj @ post"]
  obtain s' where
    "parse_loop ev (pre @ obj @ post) (brace_depth []) (- 1) (length ([]::string)) (pre @ obj @ post) =
     parse_loop ev (pre @ obj @ post) (brace_depth ([] @ pre)) s' (length ([]::string) + length pre) (obj @ post)"
    by blast
  then have "parse_response ev (pre @ obj @ post) =
             parse_loop ev (pre @ obj @ post) 0 s' (length pre) (obj @ post)"
    by (simp add: parse_response_def assms(2))
  then show ?thesis using parse_loop_region[OF assms(3) refl] by simp
qed

lemma never_closes_no_object:
  assumes "never_closes t"
  shows "parse_response ev t = Inl no_object_error"
proof -
  have nc: "never_closes ([] @ t)" using assms by simp
  have s: "(- 1 :: int) \<noteq> - 1 \<longleftrightarrow> started []" by (simp add: started_def)
  from parse_loop_prefix[OF nc s, of ev t "[]"] show ?thesis
    by (auto simp: parse_response_def)
qed

lemma brace_free_depth:
  "CHR ''{'' \<notin> set p \<Longrightarrow> CHR ''}'' \<notin> set p \<Longrightarrow> brace_depth p = 0"
  by (induction p) auto

lemma no_closer_never_closes: "CHR ''}'' \<notin> set p \<Longrightarrow> never_closes p"
proof -
  assume a: "CHR ''}'' \<notin> set p"
  have "p ! i \<noteq> CHR ''}''" if "i < length p" for i
    using a nth_mem[OF that] by auto
  then show ?thesis by (simp add: never_closes_def closes_at_def)
qed

lemma no_opener_not_started: "CHR ''{'' \<notin> set p \<Longrightarrow> \<not> started p"
proof -
  assume a: "CHR ''{'' \<notin> set p"
  have "p ! i \<noteq> CHR ''{''" if "i < length p" for i
    using a nth_mem[OF that] by auto
  then show ?thesis by (auto simp: started_def)
qed

lemma no_opener_never_closes:
  assumes "CHR ''{'' \<notin> set p"
  shows "never_closes p"
proof -
  have "\<not> started (take i p)" for i
    using assms by (intro no_opener_not_started) (auto dest: in_set_takeD)
  then show ?thesis by (simp add: never_closes_def closes_at_def)
qed


lemma brace_free_prefix:
  assumes "\<forall>c\<in>set pre. c \<noteq> CHR ''{'' \<and> c \<noteq> CHR ''}''"
  shows "never_closes pre" and "brace_depth pre = 0"
proof -
  have a: "CHR ''{'' \<notin> set pre" and b: "CHR ''}'' \<notin> set pre" using assms by auto
  show "never_closes pre" by (rule no_closer_never_closes[OF b])
  show "brace_depth pre = 0" by (rule brace_free_depth[OF a b])
qed

lemma stray_closer_not_started:
  assumes pre: "\<forall>c\<in>set pre. c \<noteq> CHR ''{'' \<and> c \<noteq> CHR ''}''"
    and flat: "\<forall>n\<in>{..length rest}. brace_depth (take n rest) \<le> 1"
  shows "\<not> started (take i (pre @ CHR ''}'' # rest))"
proof
  let ?t = "pre @ CHR ''}'' # rest"
  assume "started (take i ?t)"
  then obtain j where j: "j < length (take i ?t)" and opn: "take i ?t ! j = CHR ''{''"
    and zero: "brace_depth (take j (take i ?t)) = 0"
    by (auto simp: started_def)
  have ji: "j < i" and jt: "j < length ?t" using j by auto
  have "take i ?t ! j = ?t ! j" using ji by (rule nth_take)
  with opn have open': "?t ! j = CHR ''{''" by (simp only:)
  have "min j i = j" using ji by simp
  then have "take j (take i ?t) = take j ?t" by (simp only: take_take)
  with zero have zero': "brace_depth (take j ?t) = 0" by (simp only:)
  have "\<not> j < length pre"
  proof
    assume "j < length pre"
    then have "?t ! j \<in> set pre" by (simp add: nth_append)
    then show False using pre open' by auto
  qed
  moreover have "j \<noteq> length pre" using open' by auto
  ultimately have gt: "length pre < j" by simp
  define m where "m = j - Suc (length pre)"
  have jm: "j = length pre + Suc m" using gt by (simp add: m_def)
  have m: "m < length rest" using jt jm by simp
  have rm: "rest ! m = CHR ''{''" using open' jm by (simp add: nth_append)
  have "brace_depth (take j ?t) = brace_depth pre - 1 + brace_depth (take m rest)"
    by (simp add: jm brace_depth_append)
  moreover have "brace_depth pre = 0" using brace_free_prefix(2)[OF pre] .
  ultimately have one: "brace_depth (take m rest) = 1" using zero' by simp
  have "brace_depth (take (Suc m) rest) = 2"
    using one rm m by (simp add: take_Suc_conv_app_nth brace_depth_append)
  moreover have "brace_depth (take (Suc m) rest) \<le> 1" using flat m by simp
  ultimately show False by simp
qed

section \<open>Claims about \<^verbatim>\<open>parse_response\<close>\<close>

text \<open>
  C1. A text made of brace-free prose, then one balanced object, then anything at all
  (prose or further balanced regions) is parsed to what the first balanced object
  decodes to; when the decoder and the factory accept that object, the result is the
  command they produce.
\<close>

theorem parse_response_single_object:
  assumes "\<forall>c\<in>set pre. c \<noteq> CHR ''{'' \<and> c \<noteq> CHR ''}''"
    and "balanced_region obj"
  shows "parse_response ev (pre @ obj @ post) = try_decode ev obj \<and>
         (json_loads ev obj = Inr d \<longrightarrow> action_from_dict ev d = Inr a \<longrightarrow>
          parse_response ev (pre @ obj @ post) = Inr a)"
proof -
  have "parse_response ev (pre @ obj @ post) = try_decode ev obj"
    using brace_free_prefix[OF assms(1)] assms(2) by (rule first_region_decoded)
  then show ?thesis by (simp add: try_decode_def)
qed

theorem parse_response_single_object_witness:
  "parse_response demo_env
     (''Sure! '' @ ''{\"action\":\"run\",\"args\":{\"command\":\"ls\"}}'' @ '' Done. {\"x\":1}'') =
     Inr (PDict [(''action'', PStr ''run''), (''args'', PDict [(''command'', PStr ''ls'')])]) \<and>
   parse_response demo_env ([] @ ''{\"a\": {\"b\": 1}}'' @ '' trailing {\"x\":1}'') =
     try_decode demo_env ''{\"a\": {\"b\": 1}}''"
proof -
  have 1: "\<forall>c\<in>set ''Sure! ''. c \<noteq> CHR ''{'' \<and> c \<noteq> CHR ''}''" by simp
  have 2: "balanced_region ''{\"action\":\"run\",\"args\":{\"command\":\"ls\"}}''"
    by code_simp
  have 3: "json_loads demo_env ''{\"action\":\"run\",\"args\":{\"command\":\"ls\"}}'' =
           Inr (PDict [(''action'', PStr ''run''), (''args'', PDict [(''command'', PStr ''ls'')])])"
    by (simp add: demo_env_def demo_loads_def)
  have 4: "action_from_dict demo_env
             (PDict [(''action'', PStr ''run''), (''args'', PDict [(''command'', PStr ''ls'')])]) =
           Inr (PDict [(''action'', PStr ''run''), (''args'', PDict [(''command'', PStr ''ls'')])])"
    by (simp add: demo_env_def demo_factory_def)
  have 5: "\<forall>c\<in>set ([]::string). c \<noteq> CHR ''{'' \<and> c \<noteq> CHR ''}''" by simp
  have 6: "balanced_region ''{\"a\": {\"b\": 1}}''" by code_simp
  have a: "parse_response demo_env
     (''Sure! '' @ ''{\"action\":\"run\",\"args\":{\"command\":\"ls\"}}'' @ '' Done. {\"x\":1}'') =
     Inr (PDict [(''action'', PStr ''run''), (''args'', PDict [(''command'', PStr ''ls'')])])"
    by (rule conjunct2[OF parse_response_single_object[OF 1 2], rule_format, OF 3 4])
  have b: "parse_response demo_env ([] @ ''{\"a\": {\"b\": 1}}'' @ '' trailing {\"x\":1}'') =
     try_decode demo_env ''{\"a\": {\"b\": 1}}''"
    by (rule conjunct1[OF parse_response_single_object[OF 5 6]])
  show ?thesis using a b by (rule conjI)
qed

text \<open>
  C2. When the first balanced region of a text is rejected by the JSON decoder,
  \<^verbatim>\<open>parse_response\<close> fails with the ``Invalid JSON'' error caused by that rejection,
  whatever follows the region: a later region that would decode is never looked at.
  The text before the region may hold braces, as long as no region closes in it and the
  depth is back at zero where the region opens.
\<close>

theorem parse_response_first_region_invalid:
  assumes "never_closes pre" and "brace_depth pre = 0"
    and "balanced_region obj"
    and "json_loads ev obj = Inl (JSONDecodeError m)"
  shows "parse_response ev (pre @ obj @ post) =
         Inl (LLMOutputError
                ''Invalid JSON in response. Please make sure the response is a valid JSON object.''
                (Some (JSONDecodeError m)))"
proof -
  have "parse_response ev (pre @ obj @ post) = try_decode ev obj"
    using assms(1,2,3) by (rule first_region_decoded)
  then show ?thesis using assms(4) by (simp add: try_decode_def except_JSONDecodeError_def)
qed

theorem parse_response_first_region_invalid_witness:
  "parse_response demo_env (''}{ see '' @ ''{run: {ls}}'' @ '' or {\"action\":\"run\"}'') =
     Inl (LLMOutputError
            ''Invalid JSON in response. Please make sure the response is a valid JSON object.''
            (Some (JSONDecodeError ''Expecting property name enclosed in double quotes'')))
   \<and> try_decode demo_env ''{\"action\":\"run\"}'' = Inr (PDict [(''action'', PStr ''run'')])"
proof -
  have 1: "never_closes ''}{ see ''"
    by (simp add: never_closes_def closes_at_def less_Suc_eq)
  have 2: "brace_depth ''}{ see '' = 0" by simp
  have 3: "balanced_region ''{run: {ls}}''" by code_simp
  have 4: "json_loads demo_env ''{run: {ls}}'' =
           Inl (JSONDecodeError ''Expecting property name enclosed in double quotes'')"
    by (simp add: demo_env_def demo_loads_def)
  have 5: "try_decode demo_env ''{\"action\":\"run\"}'' = Inr (PDict [(''action'', PStr ''run'')])"
    by (simp add: try_decode_def demo_env_def demo_loads_def demo_factory_def)
  show ?thesis using parse_response_first_region_invalid[OF 1 2 3 4] 5 by simp
qed

text \<open>
  C7. A text without an opening brace, and more generally a text in which no closing
  brace ever brings the depth back to zero after a start was recorded, makes
  \<^verbatim>\<open>parse_response\<close> fail with the ``No valid JSON object found'' error.
\<close>

theorem parse_response_no_object:
  "(CHR ''{'' \<notin> set t \<longrightarrow> parse_response ev t = Inl no_object_error) \<and>
   (never_closes t \<longrightarrow> parse_response ev t = Inl no_object_error)"
proof (intro conjI impI)
  assume "CHR ''{'' \<notin> set t"
  then have "never_closes t" by (rule no_opener_never_closes)
  then show "parse_response ev t = Inl no_object_error" by (rule never_closes_no_object)
next
  assume "never_closes t"
  then show "parse_response ev t = Inl no_object_error" by (rule never_closes_no_object)
qed

theorem parse_response_no_object_witness:
  "parse_response demo_env ''done } nothing'' = Inl no_object_error \<and>
   parse_response demo_env ''{a{b}'' = Inl no_object_error"
proof -
  have 1: "CHR ''{'' \<notin> set ''done } nothing''" by simp
  have 2: "never_closes ''{a{b}''"
    by (simp add: never_closes_def closes_at_def less_Suc_eq)
  show ?thesis
    using parse_response_no_object[of "''done } nothing''" demo_env]
      parse_response_no_object[of "''{a{b}''" demo_env] 1 2 by blast
qed

text \<open>
  C5 (as amended). When the balanced text decodes to a mapping and the factory
  \<^verbatim>\<open>action_from_dict\<close> raises, \<^verbatim>\<open>parse_response\<close> lets the factory's own exception
  through unchanged: the handler names \<^verbatim>\<open>json.JSONDecodeError\<close> only, so nothing is
  wrapped and no cause is attached.
\<close>

theorem parse_response_factory_failure:
  assumes "\<forall>c\<in>set pre. c \<noteq> CHR ''{'' \<and> c \<noteq> CHR ''}''"
    and "balanced_region obj"
    and "json_loads ev obj = Inr d"
    and "action_from_dict ev d = Inl e"
    and "\<forall>m. e \<noteq> JSONDecodeError m"
  shows "parse_response ev (pre @ obj @ post) = Inl e"
proof -
  have "parse_response ev (pre @ obj @ post) = try_decode ev obj"
    using brace_free_prefix[OF assms(1)] assms(2) by (rule first_region_decoded)
  moreover have "except_JSONDecodeError e = e"
    using assms(5) by (cases e) (simp_all add: except_JSONDecodeError_def)
  ultimately show ?thesis using assms(3,4) by (simp add: try_decode_def)
qed

theorem parse_response_factory_failure_witness:
  "parse_response demo_env (''I think '' @ ''{\"x\":1}'' @ '' is right'') =
     Inl (LLMOutputError ''action key is not found'' None)"
proof -
  have 1: "\<forall>c\<in>set ''I think ''. c \<noteq> CHR ''{'' \<and> c \<noteq> CHR ''}''" by simp
  have 2: "balanced_region ''{\"x\":1}''" by code_simp
  have 3: "json_loads demo_env ''{\"x\":1}'' = Inr (PDict [(''x'', PInt 1)])"
    by (simp add: demo_env_def demo_loads_def)
  have 4: "action_from_dict demo_env (PDict [(''x'', PInt 1)]) =
           Inl (LLMOutputError ''action key is not found'' None)"
    by (simp add: demo_env_def demo_factory_def)
  have 5: "\<forall>m. LLMOutputError ''action key is not found'' None \<noteq> JSONDecodeError m" by simp
  show ?thesis by (rule parse_response_factory_failure[OF 1 2 3 4 5])
qed

text \<open>
  C5 as stated fails: the factory's failure does not come back as the cause of an
  ``Invalid JSON'' error.
\<close>

theorem parse_response_factory_failure_counterexample:
  "json_loads demo_env ''{\"x\":1}'' = Inr (PDict [(''x'', PInt 1)]) \<and>
   action_from_dict demo_env (PDict [(''x'', PInt 1)]) =
     Inl (LLMOutputError ''action key is not found'' None) \<and>
   parse_response demo_env ''{\"x\":1}'' \<noteq>
     Inl (LLMOutputError
            ''Invalid JSON in response. Please make sure the response is a valid JSON object.''
            (Some (LLMOutputError ''action key is not found'' None)))"
  by (simp add: parse_response_def py_slice_def try_decode_def except_JSONDecodeError_def
      demo_env_def demo_loads_def demo_factory_def)

text \<open>
  C9 (as amended). After brace-free prose and one stray closing brace, a remainder whose
  own nesting never exceeds one level (prose and flat objects) gives the ``No valid JSON
  object found'' error, even when it holds an object that would decode: the depth never
  rises above zero, so no start is recorded.
\<close>

theorem parse_response_stray_closer:
  assumes "\<forall>c\<in>set pre. c \<noteq> CHR ''{'' \<and> c \<noteq> CHR ''}''"
    and "\<forall>n\<in>{..length rest}. brace_depth (take n rest) \<le> 1"
  shows "parse_response ev (pre @ CHR ''}'' # rest) = Inl no_object_error"
proof -
  have "never_closes (pre @ CHR ''}'' # rest)"
    unfolding never_closes_def closes_at_def
    using stray_closer_not_started[OF assms] by blast
  then show ?thesis by (rule never_closes_no_object)
qed

theorem parse_response_stray_closer_witness:
  "parse_response demo_env (''oops '' @ CHR ''}'' # '' {\"action\":\"run\"}'') = Inl no_object_error \<and>
   try_decode demo_env ''{\"action\":\"run\"}'' = Inr (PDict [(''action'', PStr ''run'')])"
proof -
  have 1: "\<forall>c\<in>set ''oops ''. c \<noteq> CHR ''{'' \<and> c \<noteq> CHR ''}''" by simp
  have 2: "\<forall>n\<in>{..length '' {\"action\":\"run\"}''}. brace_depth (take n '' {\"action\":\"run\"}'') \<le> 1"
    by (simp add: atMost_Suc)
  have 3: "try_decode demo_env ''{\"action\":\"run\"}'' = Inr (PDict [(''action'', PStr ''run'')])"
    by (simp add: try_decode_def demo_env_def demo_loads_def demo_factory_def)
  show ?thesis using parse_response_stray_closer[OF 1 2, of demo_env] 3 by simp
qed

text \<open>
  C9 as stated fails: when the object after the stray closing brace is nested, its inner
  opening brace is met at depth zero, a start is recorded, and the inner object is
  returned.
\<close>

theorem parse_response_stray_closer_counterexample:
  "parse_response demo_env ''} {\"a\": {\"action\":\"run\"}}'' = Inr (PDict [(''action'', PStr ''run'')]) \<and>
   parse_response demo_env ''} {\"a\": {\"action\":\"run\"}}'' \<noteq> Inl no_object_error"
  by (simp add: parse_response_def py_slice_def try_decode_def demo_env_def demo_loads_def
      demo_factory_def)

section \<open>Facts about the workflow driver\<close>

lemma update_loop_char:
  assumes "step_do prev = Some d" and "step_name prev = Some n"
  shows "update_loop ev prev self log =
         (Inr (list_all acceptable (matching ev prev log)),
          self\<lparr>workflow_data := record_all n (examined (matching ev prev log)) (workflow_data self)\<rparr>)"
proof (induction log arbitrary: self)
  case Nil
  then show ?case by (simp add: matching_def assms examined_def)
next
  case (Cons p log)
  show ?case
  proof (cases p)
    case (Pair a obs)
    show ?thesis
    proof (cases "map_of d ''action'' = Some (PStr (action_attr ev a))")
      case False
      have m: "matching ev prev ((a, obs) # log) = matching ev prev log"
        using False by (simp add: matching_def assms)
      have u: "update_loop ev prev self ((a, obs) # log) = update_loop ev prev self log"
        using False by (simp add: assms py_in_def)
      show ?thesis unfolding Pair u m by (rule Cons.IH)
    next
      case True
      have m: "matching ev prev ((a, obs) # log) = (a, obs) # matching ev prev log"
        using True by (simp add: matching_def assms)
      show ?thesis
      proof (cases "validate_observation a obs")
        case False
        then have na: "\<not> acceptable (a, obs)" by (simp add: acceptable_def)
        have ex: "examined ((a, obs) # matching ev prev log) = [(a, obs)]"
          using na by (simp add: examined_def)
        have u: "update_loop ev prev self ((a, obs) # log) =
                 (Inr False, self\<lparr>workflow_data := (workflow_data self)(n \<mapsto> obs)\<rparr>)"
          using True False by (simp add: assms py_in_def)
        have l: "list_all acceptable ((a, obs) # matching ev prev log) = False"
          using na by simp
        have r: "record_all n [(a, obs)] (workflow_data self) = (workflow_data self)(n \<mapsto> obs)"
          by simp
        show ?thesis by (simp only: Pair u m ex l r)
      next
        case v: True
        then have acc: "acceptable (a, obs)" by (simp add: acceptable_def)
        have ex: "examined ((a, obs) # matching ev prev log) =
                  (a, obs) # examined (matching ev prev log)"
          using acc by (simp add: examined_def)
        have u: "update_loop ev prev self ((a, obs) # log) =
              update_loop ev prev (self\<lparr>workflow_data := (workflow_data self)(n \<mapsto> obs)\<rparr>) log"
          using True v by (simp add: assms py_in_def)
        have l: "list_all acceptable ((a, obs) # matching ev prev log) =
                 list_all acceptable (matching ev prev log)"
          using acc by simp
        have r: "record_all n ((a, obs) # examined (matching ev prev log)) (workflow_data self) =
                 record_all n (examined (matching ev prev log)) ((workflow_data self)(n \<mapsto> obs))"
          by simp
        have "update_loop ev prev (self\<lparr>workflow_data := (workflow_data self)(n \<mapsto> obs)\<rparr>) log =
              (Inr (list_all acceptable (matching ev prev log)),
               self\<lparr>workflow_data :=
                      record_all n (examined (matching ev prev log)) ((workflow_data self)(n \<mapsto> obs))\<rparr>)"
          by (simp add: Cons.IH fun_upd_def)
        then show ?thesis by (simp only: Pair u m ex l r)
      qed
    qed
  qed
qed

lemma examined_all: "list_all acceptable ms \<Longrightarrow> examined ms = ms"
proof -
  assume a: "list_all acceptable ms"
  have t: "takeWhile acceptable ms = ms" using a by (simp add: list_all_iff)
  have d: "dropWhile acceptable ms = []" using a by (simp add: list_all_iff)
  show ?thesis unfolding examined_def t d by simp
qed

lemma py_getitem_nat:
  "j < length xs \<Longrightarrow> py_getitem xs (int j) = Inr (xs ! j)"
  by (simp add: py_getitem_def)

lemma finished_call:
  assumes "workflow (agent_definition self) = Some steps"
    and "int (length steps) \<le> workflow_step self"
  shows "step_workflow ev self st = (Inr (AgentFinishAction ev), self, st)"
  using assms by (simp add: step_workflow_def)

lemma update_loop_env:
  assumes "action_attr ev' = action_attr ev"
  shows "update_loop ev' prev self log = update_loop ev prev self log"
proof (induction log arbitrary: self)
  case Nil
  show ?case by simp
next
  case (Cons p log)
  show ?case
  proof (cases p)
    case (Pair a obs)
    show ?thesis unfolding Pair
      by (simp add: assms Cons.IH Let_def split: option.splits)
  qed
qed

lemma update_previous_env:
  assumes "action_attr ev' = action_attr ev"
  shows "update_previous_workflow_step ev' self st = update_previous_workflow_step ev self st"
  by (simp add: update_previous_workflow_step_def update_loop_env[OF assms]
      split: option.splits sum.splits)

lemma step_workflow_reaches:
  assumes "workflow (agent_definition self) = Some steps"
    and "workflow_step self < int (length steps)"
    and "(if workflow_step self > 0 then update_previous_workflow_step ev self st
          else (Inr True, self)) = (Inr True, self1)"
    and "py_getitem steps (workflow_step self1) = Inr stp"
  shows "step_workflow ev self st =
         (let self2 = self1\<lparr>workflow_step := workflow_step self1 + 1\<rparr>;
              d = (case step_do stp of None \<Rightarrow> [] | Some d' \<Rightarrow> d')
          in if py_in ''action'' d then
               (case action_from_dict ev (PDict d) of
                  Inl e \<Rightarrow> (Inl e, self2, st)
                | Inr action \<Rightarrow> (Inr action, self2, st))
             else if py_in ''prompt'' d then
               (case prompt_to_action ev self2 (py_get d ''prompt'' PNone) st
                       (py_get d ''inputs'' (PDict [])) of
                  (r, st') \<Rightarrow> (r, self2, st'))
             else
               (Inl (ValueError ''Step must contain either an action or a prompt''), self2, st))"
proof -
  have "\<not> int (length steps) \<le> workflow_step self" using assms(2) by simp
  then show ?thesis
    unfolding step_workflow_def by (simp only: assms option.case if_False prod.case sum.case not_True_eq_False)
qed

lemma record_all_last:
  "ps \<noteq> [] \<Longrightarrow> record_all n ps m = (record_all n (butlast ps) m)(n \<mapsto> snd (last ps))"
  by (induction ps arbitrary: m) auto

lemma examined_rejected:
  assumes "\<not> list_all acceptable ms"
  shows "examined ms \<noteq> []" and "last (examined ms) = hd (dropWhile acceptable ms)"
proof -
  have "dropWhile acceptable ms \<noteq> []"
    using assms by (simp add: list_all_iff)
  then obtain p ps where d: "dropWhile acceptable ms = p # ps" by (cases "dropWhile acceptable ms") auto
  show "examined ms \<noteq> []" by (simp add: examined_def d)
  show "last (examined ms) = hd (dropWhile acceptable ms)" by (simp add: examined_def d)
qed

lemma update_previous_char:
  assumes "workflow (agent_definition self) = Some steps"
    and "py_getitem steps (workflow_step self - 1) = Inr prev"
    and "step_do prev = Some d" and "step_name prev = Some n"
  shows "update_previous_workflow_step ev self st =
         (Inr (list_all acceptable (matching ev prev (updated_info st))),
          self\<lparr>workflow_data :=
                 record_all n (examined (matching ev prev (updated_info st))) (workflow_data self)\<rparr>)"
  by (simp add: update_previous_workflow_step_def assms(1,2) update_loop_char[OF assms(3,4)])

lemma update_loop_frame:
  "workflow_step (snd (update_loop ev prev self log)) = workflow_step self"
proof (induction log arbitrary: self)
  case Nil
  show ?case by simp
next
  case (Cons p log)
  show ?case
  proof (cases p)
    case (Pair a obs)
    show ?thesis unfolding Pair
      by (simp add: Cons.IH Let_def split: option.splits)
  qed
qed

lemma update_previous_frame:
  "workflow_step (snd (update_previous_workflow_step ev self st)) = workflow_step self"
  by (simp add: update_previous_workflow_step_def update_loop_frame split: option.splits sum.splits)

lemma step_workflow_index:
  "workflow_step self \<le> workflow_step (fst (snd (step_workflow ev self st))) \<and>
   workflow_step (fst (snd (step_workflow ev self st))) \<le> workflow_step self + 1"
proof (cases "workflow (agent_definition self)")
  case None
  then show ?thesis by (simp add: step_workflow_def)
next
  case (Some steps)
  show ?thesis
  proof (cases "int (length steps) \<le> workflow_step self")
    case True
    then show ?thesis by (simp add: finished_call[OF Some])
  next
    case False
    define v where "v = (if workflow_step self > 0 then update_previous_workflow_step ev self st
                         else (Inr True, self))"
    have f: "workflow_step (snd v) = workflow_step self"
      by (simp add: v_def update_previous_frame)
    obtain r self1 where v: "v = (r, self1)" by (cases v)
    have f1: "workflow_step self1 = workflow_step self" using f v by simp
    have sw: "step_workflow ev self st =
       (case v of
          (Inl e, self1) \<Rightarrow> (Inl e, self1, st)
        | (Inr ok, self1) \<Rightarrow>
            (if \<not> ok then (Inr (AgentRejectAction ev), self1, st)
             else
               (case py_getitem steps (workflow_step self1) of
                  Inl e \<Rightarrow> (Inl e, self1, st)
                | Inr stp \<Rightarrow>
                    (let self2 = self1\<lparr>workflow_step := workflow_step self1 + 1\<rparr>;
                         d = (case step_do stp of None \<Rightarrow> [] | Some d' \<Rightarrow> d')
                     in if py_in ''action'' d then
                          (case action_from_dict ev (PDict d) of
                             Inl e \<Rightarrow> (Inl e, self2, st)
                           | Inr action \<Rightarrow> (Inr action, self2, st))
                        else if py_in ''prompt'' d then
                          (case prompt_to_action ev self2 (py_get d ''prompt'' PNone) st
                                  (py_get d ''inputs'' (PDict [])) of
                             (r, st') \<Rightarrow> (r, self2, st'))
                        else
                          (Inl (ValueError ''Step must contain either an action or a prompt''),
                           self2, st)))))"
      unfolding step_workflow_def v_def using False
      by (simp only: Some option.case if_False)
    show ?thesis
    proof (cases r)
      case (Inl e)
      then show ?thesis by (simp add: sw v f1)
    next
      case (Inr ok)
      show ?thesis
      proof (cases ok)
        case False
        then show ?thesis by (simp add: sw v Inr f1)
      next
        case True
        show ?thesis
        proof (cases "py_getitem steps (workflow_step self1)")
          case (Inl e)
          then show ?thesis by (simp add: sw v Inr True f1)
        next
          case stp: (Inr stp)
          show ?thesis
            by (simp add: sw v Inr True stp f1 Let_def split: sum.splits prod.splits)
        qed
      qed
    qed
  qed
qed

lemma step_workflow_fixed:
  assumes wf: "workflow (agent_definition self) = Some steps"
    and ws: "workflow_step self = int j" and j: "j < length steps"
    and fx: "fixed_command ev (steps ! j) c"
    and prev: "0 < j \<longrightarrow> step_do (steps ! (j - 1)) \<noteq> None \<and> step_name (steps ! (j - 1)) \<noteq> None \<and>
                       accepted ev (steps ! (j - 1)) st"
  shows "\<exists>self'. step_workflow ev self st = (Inr c, self', st) \<and>
                workflow_step self' = int (Suc j) \<and>
                agent_definition self' = agent_definition self"
proof -
  have lt: "workflow_step self < int (length steps)" using ws j by simp
  have "\<exists>self1. (if workflow_step self > 0 then update_previous_workflow_step ev self st
          else (Inr True, self)) = (Inr True, self1) \<and> workflow_step self1 = int j \<and>
          agent_definition self1 = agent_definition self"
  proof (cases "0 < j")
    case False
    then show ?thesis using ws by simp
  next
    case True
    then obtain d n where d: "step_do (steps ! (j - 1)) = Some d"
      and n: "step_name (steps ! (j - 1)) = Some n"
      and acc: "accepted ev (steps ! (j - 1)) st"
      using prev by auto
    have g: "py_getitem steps (workflow_step self - 1) = Inr (steps ! (j - 1))"
      using True j ws py_getitem_nat[of "j - 1" steps] by (simp add: of_nat_diff)
    show ?thesis
      using True ws acc by (simp add: update_previous_char[OF wf g d n] accepted_def)
  qed
  then obtain self1 where v: "(if workflow_step self > 0 then update_previous_workflow_step ev self st
          else (Inr True, self)) = (Inr True, self1)"
    and w1: "workflow_step self1 = int j" and a1: "agent_definition self1 = agent_definition self"
    by blast
  have g: "py_getitem steps (workflow_step self1) = Inr (steps ! j)"
    using w1 j by (simp add: py_getitem_nat)
  obtain d where d: "step_do (steps ! j) = Some d" and ia: "py_in ''action'' d"
    and af: "action_from_dict ev (PDict d) = Inr c"
    using fx by (auto simp: fixed_command_def split: option.splits)
  have "step_workflow ev self st = (Inr c, self1\<lparr>workflow_step := workflow_step self1 + 1\<rparr>, st)"
    unfolding step_workflow_reaches[OF wf lt v g] by (simp add: d ia af Let_def)
  then show ?thesis using w1 a1 by simp
qed

lemma fixed_command_keys:
  "fixed_command ev stp c \<Longrightarrow> step_do stp \<noteq> None \<and> step_name stp \<noteq> None"
  by (auto simp: fixed_command_def split: option.splits)

lemma run_workflow_fixed:
  assumes fx: "list_all2 (fixed_command ev) steps cmds"
  shows "workflow (agent_definition self) = Some steps \<Longrightarrow>
         workflow_step self = int j \<Longrightarrow> j \<le> length steps \<Longrightarrow>
         length sts = Suc (length steps - j) \<Longrightarrow>
         (\<forall>i. 0 < j + i \<longrightarrow> j + i < length steps \<longrightarrow> accepted ev (steps ! (j + i - 1)) (sts ! i)) \<Longrightarrow>
         map fst (run_workflow ev self sts) = map Inr (drop j cmds) @ [Inr (AgentFinishAction ev)] \<and>
         map (\<lambda>p. workflow_step (snd p)) (run_workflow ev self sts) =
           map int [Suc j..<Suc (length steps)] @ [int (length steps)]"
proof (induction sts arbitrary: self j)
  case Nil
  then show ?case by simp
next
  case (Cons st sts)
  have len: "length cmds = length steps" using fx by (simp add: list_all2_lengthD)
  show ?case
  proof (cases "j = length steps")
    case True
    then have "sts = []" using Cons.prems(4) by simp
    moreover have "step_workflow ev self st = (Inr (AgentFinishAction ev), self, st)"
      using Cons.prems(1,2) True by (simp add: finished_call)
    ultimately show ?thesis using True Cons.prems(2) len by (simp del: upt_Suc)
  next
    case False
    then have j: "j < length steps" using Cons.prems(3) by simp
    have fj: "fixed_command ev (steps ! j) (cmds ! j)"
      using fx j by (simp add: list_all2_nthD)
    have prev: "0 < j \<longrightarrow> step_do (steps ! (j - 1)) \<noteq> None \<and> step_name (steps ! (j - 1)) \<noteq> None \<and>
                       accepted ev (steps ! (j - 1)) st"
    proof
      assume p: "0 < j"
      have "fixed_command ev (steps ! (j - 1)) (cmds ! (j - 1))"
        using fx j by (simp add: list_all2_nthD)
      then have k: "step_do (steps ! (j - 1)) \<noteq> None \<and> step_name (steps ! (j - 1)) \<noteq> None"
        by (rule fixed_command_keys)
      have "accepted ev (steps ! (j - 1)) st"
        using Cons.prems(5)[rule_format, of 0] p j by simp
      with k show "step_do (steps ! (j - 1)) \<noteq> None \<and> step_name (steps ! (j - 1)) \<noteq> None \<and>
                       accepted ev (steps ! (j - 1)) st"
        by simp
    qed
    from step_workflow_fixed[OF Cons.prems(1,2) j fj prev]
    obtain self' where s: "step_workflow ev self st = (Inr (cmds ! j), self', st)"
      and w: "workflow_step self' = int (Suc j)"
      and a: "agent_definition self' = agent_definition self"
      by blast
    have wf': "workflow (agent_definition self') = Some steps" using a Cons.prems(1) by simp
    have l': "length sts = Suc (length steps - Suc j)" using Cons.prems(4) j by simp
    have acc': "\<forall>i. 0 < Suc j + i \<longrightarrow> Suc j + i < length steps \<longrightarrow>
                    accepted ev (steps ! (Suc j + i - 1)) (sts ! i)"
    proof (intro allI impI)
      fix i assume "Suc j + i < length steps"
      then show "accepted ev (steps ! (Suc j + i - 1)) (sts ! i)"
        using Cons.prems(5)[rule_format, of "Suc i"] by simp
    qed
    have ih: "map fst (run_workflow ev self' sts) =
                map Inr (drop (Suc j) cmds) @ [Inr (AgentFinishAction ev)] \<and>
              map (\<lambda>p. workflow_step (snd p)) (run_workflow ev self' sts) =
                map int [Suc (Suc j)..<Suc (length steps)] @ [int (length steps)]"
      by (rule Cons.IH[OF wf' w _ l' acc']) (use j in simp)
    have dr: "drop j cmds = cmds ! j # drop (Suc j) cmds"
      using j len by (simp add: Cons_nth_drop_Suc)
    have up: "[Suc j..<Suc (length steps)] = Suc j # [Suc (Suc j)..<Suc (length steps)]"
      using j by (simp add: upt_conv_Cons)
    show ?thesis unfolding dr up using ih s w by (simp del: upt_Suc)
  qed
qed

section \<open>Claims about the workflow driver\<close>

text \<open>
  C3. A freshly constructed agent has step index 0. When every step of its workflow has
  a name and a fixed action that the factory accepts, and the log handed to each call
  holds only acceptable outcomes for the step issued before, then \<open>N + 1\<close> calls of
  \<^verbatim>\<open>step_workflow\<close> on a workflow of \<open>N\<close> steps return the \<open>N\<close> commands in order and
  then \<^verbatim>\<open>AgentFinishAction\<close>; the step index after the calls is \<open>1, 2, \<dots>, N, N\<close>. In
  every call whatsoever the step index stays or grows by exactly one.
\<close>

theorem run_workflow_all_fixed:
  assumes "MicroAgent_init ev defn pr = Inr self"
    and "workflow defn = Some steps"
    and "list_all2 (fixed_command ev) steps cmds"
    and "length sts = Suc (length steps)"
    and "\<forall>k. Suc k < length steps \<longrightarrow> accepted ev (steps ! k) (sts ! Suc k)"
  shows "workflow_step self = 0 \<and>
         map fst (run_workflow ev self sts) = map Inr cmds @ [Inr (AgentFinishAction ev)] \<and>
         map (\<lambda>p. workflow_step (snd p)) (run_workflow ev self sts) =
           map int [1..<Suc (length steps)] @ [int (length steps)] \<and>
         (\<forall>a s. workflow_step a \<le> workflow_step (fst (snd (step_workflow ev a s))) \<and>
                workflow_step (fst (snd (step_workflow ev a s))) \<le> workflow_step a + 1)"
proof -
  have i: "workflow_step self = 0" "agent_definition self = defn"
    using assms(1) by (auto simp: MicroAgent_init_def split: option.splits if_splits)
  have wf: "workflow (agent_definition self) = Some steps" using i(2) assms(2) by simp
  have ws: "workflow_step self = int 0" using i(1) by simp
  have l: "length sts = Suc (length steps - 0)" using assms(4) by simp
  have acc: "\<forall>i. 0 < 0 + i \<longrightarrow> 0 + i < length steps \<longrightarrow> accepted ev (steps ! (0 + i - 1)) (sts ! i)"
  proof (intro allI impI)
    fix i :: nat assume "0 < 0 + i" and "0 + i < length steps"
    then show "accepted ev (steps ! (0 + i - 1)) (sts ! i)"
      using assms(5)[rule_format, of "i - 1"] by simp
  qed
  have r: "map fst (run_workflow ev self sts) = map Inr (drop 0 cmds) @ [Inr (AgentFinishAction ev)] \<and>
         map (\<lambda>p. workflow_step (snd p)) (run_workflow ev self sts) =
           map int [Suc 0..<Suc (length steps)] @ [int (length steps)]"
    by (rule run_workflow_fixed[OF assms(3) wf ws _ l acc]) simp
  have m: "\<forall>a s. workflow_step a \<le> workflow_step (fst (snd (step_workflow ev a s))) \<and>
                workflow_step (fst (snd (step_workflow ev a s))) \<le> workflow_step a + 1"
    by (intro allI) (rule step_workflow_index)
  have r1: "map fst (run_workflow ev self sts) = map Inr cmds @ [Inr (AgentFinishAction ev)]"
    using r by simp
  have r2: "map (\<lambda>p. workflow_step (snd p)) (run_workflow ev self sts) =
           map int [1..<Suc (length steps)] @ [int (length steps)]"
    using conjunct2[OF r] by (simp only: One_nat_def)
  show ?thesis using i(1) r1 r2 m by (intro conjI)
qed

theorem run_workflow_all_fixed_witness:
  "map fst (run_workflow demo_env (demo_agent [step_s0, step_s1])
      [demo_state [], demo_state [(demo_run, CmdOutputObservation 0 ''hi'')],
       demo_state [(demo_say, OtherObservation ''done'')]]) =
     [Inr demo_run, Inr demo_say, Inr (AgentFinishAction demo_env)] \<and>
   map (\<lambda>p. workflow_step (snd p)) (run_workflow demo_env (demo_agent [step_s0, step_s1])
      [demo_state [], demo_state [(demo_run, CmdOutputObservation 0 ''hi'')],
       demo_state [(demo_say, OtherObservation ''done'')]]) = [1, 2, 2]"
proof -
  let ?sts = "[demo_state [], demo_state [(demo_run, CmdOutputObservation 0 ''hi'')],
       demo_state [(demo_say, OtherObservation ''done'')]]"
  have 1: "MicroAgent_init demo_env \<lparr>agent_name = Some ''demo'', workflow = Some [step_s0, step_s1]\<rparr> [] =
           Inr (demo_agent [step_s0, step_s1])"
    by (simp add: MicroAgent_init_def demo_agent_def demo_env_def py_in_def)
  have 2: "workflow \<lparr>agent_name = Some ''demo'', workflow = Some [step_s0, step_s1]\<rparr> =
           Some [step_s0, step_s1]" by simp
  have 3: "list_all2 (fixed_command demo_env) [step_s0, step_s1] [demo_run, demo_say]"
    by (simp add: fixed_command_def step_s0_def step_s1_def py_in_def demo_env_def
        demo_factory_def demo_run_def demo_say_def)
  have 4: "length ?sts = Suc (length [step_s0, step_s1])" by simp
  have 5: "\<forall>k. Suc k < length [step_s0, step_s1] \<longrightarrow>
             accepted demo_env ([step_s0, step_s1] ! k) (?sts ! Suc k)"
    by (simp add: accepted_def matching_def acceptable_def step_s0_def demo_state_def
        demo_env_def demo_attr_def demo_run_def)
  have 6: "map int [1..<Suc (length [step_s0, step_s1])] @ [int (length [step_s0, step_s1])] = [1, 2, 2]"
    by (simp add: upt_rec)
  show ?thesis
    using run_workflow_all_fixed[OF 1 2 3 4 5] unfolding 6 by simp
qed

text \<open>
  C4 (as amended). During the validation of the previous step, the matching pairs of the
  log are taken in order up to and including the first one that is not acceptable; each
  of them is written under the previous step's name, so the entry ends as the last of
  them. A \<^verbatim>\<open>CmdOutputObservation\<close> is acceptable exactly when its exit code is zero, any
  other observation always. When some matching pair is not acceptable,
  \<^verbatim>\<open>step_workflow\<close> returns \<^verbatim>\<open>AgentRejectAction\<close>, the step index is unchanged and the
  entry holds the observation of the first pair that failed.
\<close>

theorem previous_step_validation:
  assumes "workflow (agent_definition self) = Some steps"
    and "0 < workflow_step self" and "workflow_step self < int (length steps)"
    and "py_getitem steps (workflow_step self - 1) = Inr prev"
    and "step_do prev = Some d" and "step_name prev = Some n"
  shows "update_previous_workflow_step ev self st =
           (Inr (list_all acceptable (matching ev prev (updated_info st))),
            self\<lparr>workflow_data :=
                   record_all n (examined (matching ev prev (updated_info st))) (workflow_data self)\<rparr>) \<and>
         (acceptable (a, obs) \<longleftrightarrow>
            (case obs of CmdOutputObservation code content \<Rightarrow> code = 0 | OtherObservation content \<Rightarrow> True)) \<and>
         (\<not> list_all acceptable (matching ev prev (updated_info st)) \<longrightarrow>
            step_workflow ev self st =
              (Inr (AgentRejectAction ev),
               self\<lparr>workflow_data :=
                      record_all n (examined (matching ev prev (updated_info st))) (workflow_data self)\<rparr>,
               st) \<and>
            record_all n (examined (matching ev prev (updated_info st))) (workflow_data self) n =
              Some (snd (hd (dropWhile acceptable (matching ev prev (updated_info st))))))"
proof (intro conjI impI)
  let ?ms = "matching ev prev (updated_info st)"
  show u: "update_previous_workflow_step ev self st =
           (Inr (list_all acceptable ?ms),
            self\<lparr>workflow_data := record_all n (examined ?ms) (workflow_data self)\<rparr>)"
    using assms(1,4,5,6) by (rule update_previous_char)
  show "acceptable (a, obs) \<longleftrightarrow>
            (case obs of CmdOutputObservation code content \<Rightarrow> code = 0 | OtherObservation content \<Rightarrow> True)"
    by (cases obs) (simp_all add: acceptable_def)
  assume rej: "\<not> list_all acceptable ?ms"
  have "\<not> int (length steps) \<le> workflow_step self" using assms(3) by simp
  then show "step_workflow ev self st =
              (Inr (AgentRejectAction ev),
               self\<lparr>workflow_data := record_all n (examined ?ms) (workflow_data self)\<rparr>, st)"
    unfolding step_workflow_def using rej assms(2)
    by (simp only: assms(1) u option.case if_False if_True prod.case sum.case not_False_eq_True)
  show "record_all n (examined ?ms) (workflow_data self) n = Some (snd (hd (dropWhile acceptable ?ms)))"
    using examined_rejected[OF rej] by (simp add: record_all_last)
qed

theorem previous_step_validation_witness:
  "fst (step_workflow demo_env ((demo_agent [step_s0, step_s1])\<lparr>workflow_step := 1\<rparr>)
          (demo_state [(demo_run, CmdOutputObservation 2 ''boom'')])) =
     Inr (AgentRejectAction demo_env) \<and>
   workflow_data (fst (snd (step_workflow demo_env ((demo_agent [step_s0, step_s1])\<lparr>workflow_step := 1\<rparr>)
          (demo_state [(demo_run, CmdOutputObservation 2 ''boom'')])))) ''s0'' =
     Some (CmdOutputObservation 2 ''boom'') \<and>
   workflow_step (fst (snd (step_workflow demo_env ((demo_agent [step_s0, step_s1])\<lparr>workflow_step := 1\<rparr>)
          (demo_state [(demo_run, CmdOutputObservation 2 ''boom'')])))) = 1"
proof -
  let ?self = "(demo_agent [step_s0, step_s1])\<lparr>workflow_step := 1\<rparr>"
  let ?st = "demo_state [(demo_run, CmdOutputObservation 2 ''boom'')]"
  have 1: "workflow (agent_definition ?self) = Some [step_s0, step_s1]"
    by (simp add: demo_agent_def)
  have 2: "0 < workflow_step ?self" by simp
  have 3: "workflow_step ?self < int (length [step_s0, step_s1])" by simp
  have 4: "py_getitem [step_s0, step_s1] (workflow_step ?self - 1) = Inr step_s0"
    by (simp add: py_getitem_def)
  have 5: "step_do step_s0 =
           Some [(''action'', PStr ''run''), (''args'', PDict [(''command'', PStr ''echo hi'')])]"
    by (simp add: step_s0_def)
  have 6: "step_name step_s0 = Some ''s0''" by (simp add: step_s0_def)
  have m: "matching demo_env step_s0 (updated_info ?st) = [(demo_run, CmdOutputObservation 2 ''boom'')]"
    by (simp add: matching_def step_s0_def demo_state_def demo_env_def demo_attr_def demo_run_def)
  have 7: "\<not> list_all acceptable (matching demo_env step_s0 (updated_info ?st))"
    unfolding m by (simp add: acceptable_def)
  have e: "examined [(demo_run, CmdOutputObservation 2 ''boom'')] =
           [(demo_run, CmdOutputObservation 2 ''boom'')]"
    by (simp add: examined_def acceptable_def)
  have "step_workflow demo_env ?self ?st =
          (Inr (AgentRejectAction demo_env),
           ?self\<lparr>workflow_data :=
                   record_all ''s0'' (examined (matching demo_env step_s0 (updated_info ?st)))
                     (workflow_data ?self)\<rparr>, ?st)"
    by (rule previous_step_validation[OF 1 2 3 4 5 6, THEN conjunct2, THEN conjunct2,
          rule_format, OF 7, THEN conjunct1])
  then have "step_workflow demo_env ?self ?st =
          (Inr (AgentRejectAction demo_env),
           ?self\<lparr>workflow_data :=
                   record_all ''s0'' [(demo_run, CmdOutputObservation 2 ''boom'')]
                     (workflow_data ?self)\<rparr>, ?st)"
    by (simp only: m e)
  then show ?thesis by simp
qed

text \<open>
  C4 as stated fails: a matching pair that follows a failing one is never recorded, since
  the loop returns at the first failure.
\<close>

theorem previous_step_validation_counterexample:
  "(demo_run, CmdOutputObservation 0 ''ok'') \<in>
     set (matching demo_env step_s0
            [(demo_run, CmdOutputObservation 2 ''boom''), (demo_run, CmdOutputObservation 0 ''ok'')]) \<and>
   workflow_data (snd (update_previous_workflow_step demo_env
        ((demo_agent [step_s0, step_s1])\<lparr>workflow_step := 1\<rparr>)
        (demo_state [(demo_run, CmdOutputObservation 2 ''boom''),
                     (demo_run, CmdOutputObservation 0 ''ok'')]))) ''s0'' =
     Some (CmdOutputObservation 2 ''boom'') \<and>
   workflow_data (snd (update_previous_workflow_step demo_env
        ((demo_agent [step_s0, step_s1])\<lparr>workflow_step := 1\<rparr>)
        (demo_state [(demo_run, CmdOutputObservation 2 ''boom''),
                     (demo_run, CmdOutputObservation 0 ''ok'')]))) ''s0'' \<noteq>
     Some (CmdOutputObservation 0 ''ok'')"
  by (simp add: matching_def update_previous_workflow_step_def py_getitem_def demo_agent_def
      step_s0_def demo_state_def demo_env_def demo_attr_def demo_run_def py_in_def)

text \<open>
  C6 (as amended). An agent definition without a name makes the constructor raise
  \<open>ValueError\<close>. The constructor does not look at the workflow: with a registered name it
  succeeds whatever the steps are. A step with neither an action nor a prompt is found
  by the call of \<^verbatim>\<open>step_workflow\<close> that reaches it, which raises \<open>ValueError\<close> after it
  has advanced the step index.
\<close>

theorem definition_errors:
  "(agent_name defn = None \<longrightarrow>
      MicroAgent_init ev defn pr = Inl (ValueError ''Agent definition must contain a name'')) \<and>
   (agent_name defn = Some n \<longrightarrow> py_in n (all_microagents ev) \<longrightarrow>
      MicroAgent_init ev defn pr =
        Inr \<lparr>agent_definition = defn, prompt = pr,
             delegates = filter (\<lambda>kv. fst kv \<noteq> n) (all_microagents ev),
             workflow_step = 0, workflow_data = Map.empty\<rparr>) \<and>
   (workflow (agent_definition self) = Some steps \<longrightarrow>
    workflow_step self < int (length steps) \<longrightarrow>
    (if workflow_step self > 0 then update_previous_workflow_step ev self st
     else (Inr True, self)) = (Inr True, self1) \<longrightarrow>
    py_getitem steps (workflow_step self1) = Inr stp \<longrightarrow>
    \<not> py_in ''action'' (case step_do stp of None \<Rightarrow> [] | Some d \<Rightarrow> d) \<longrightarrow>
    \<not> py_in ''prompt'' (case step_do stp of None \<Rightarrow> [] | Some d \<Rightarrow> d) \<longrightarrow>
      step_workflow ev self st =
        (Inl (ValueError ''Step must contain either an action or a prompt''),
         self1\<lparr>workflow_step := workflow_step self1 + 1\<rparr>, st))"
proof (intro conjI impI)
  assume "agent_name defn = None"
  then show "MicroAgent_init ev defn pr = Inl (ValueError ''Agent definition must contain a name'')"
    by (simp add: MicroAgent_init_def)
next
  assume "agent_name defn = Some n" and "py_in n (all_microagents ev)"
  then show "MicroAgent_init ev defn pr =
        Inr \<lparr>agent_definition = defn, prompt = pr,
             delegates = filter (\<lambda>kv. fst kv \<noteq> n) (all_microagents ev),
             workflow_step = 0, workflow_data = Map.empty\<rparr>"
    by (simp add: MicroAgent_init_def)
next
  assume a: "workflow (agent_definition self) = Some steps"
    "workflow_step self < int (length steps)"
    "(if workflow_step self > 0 then update_previous_workflow_step ev self st
     else (Inr True, self)) = (Inr True, self1)"
    "py_getitem steps (workflow_step self1) = Inr stp"
    and b: "\<not> py_in ''action'' (case step_do stp of None \<Rightarrow> [] | Some d \<Rightarrow> d)"
    "\<not> py_in ''prompt'' (case step_do stp of None \<Rightarrow> [] | Some d \<Rightarrow> d)"
  show "step_workflow ev self st =
        (Inl (ValueError ''Step must contain either an action or a prompt''),
         self1\<lparr>workflow_step := workflow_step self1 + 1\<rparr>, st)"
    unfolding step_workflow_reaches[OF a] using b by (simp add: Let_def)
qed

theorem definition_errors_witness:
  "MicroAgent_init demo_env \<lparr>agent_name = None, workflow = Some [step_empty]\<rparr> [] =
     Inl (ValueError ''Agent definition must contain a name'') \<and>
   MicroAgent_init demo_env \<lparr>agent_name = Some ''demo'', workflow = Some [step_empty]\<rparr> [] =
     Inr (demo_agent [step_empty]) \<and>
   step_workflow demo_env (demo_agent [step_empty]) (demo_state []) =
     (Inl (ValueError ''Step must contain either an action or a prompt''),
      (demo_agent [step_empty])\<lparr>workflow_step := 1\<rparr>, demo_state [])"
proof -
  have 0: "agent_name \<lparr>agent_name = None, workflow = Some [step_empty]\<rparr> = None" by simp
  have 1: "agent_name \<lparr>agent_name = Some ''demo'', workflow = Some [step_empty]\<rparr> = Some ''demo''"
    by simp
  have 2: "py_in ''demo'' (all_microagents demo_env)" by (simp add: py_in_def demo_env_def)
  have 3: "workflow (agent_definition (demo_agent [step_empty])) = Some [step_empty]"
    by (simp add: demo_agent_def)
  have 4: "workflow_step (demo_agent [step_empty]) < int (length [step_empty])"
    by (simp add: demo_agent_def)
  have 5: "(if workflow_step (demo_agent [step_empty]) > 0
            then update_previous_workflow_step demo_env (demo_agent [step_empty]) (demo_state [])
            else (Inr True, demo_agent [step_empty])) = (Inr True, demo_agent [step_empty])"
    by (simp add: demo_agent_def)
  have 6: "py_getitem [step_empty] (workflow_step (demo_agent [step_empty])) = Inr step_empty"
    by (simp add: demo_agent_def py_getitem_def)
  have 7: "\<not> py_in ''action'' (case step_do step_empty of None \<Rightarrow> [] | Some d \<Rightarrow> d)"
    by (simp add: py_in_def step_empty_def)
  have 8: "\<not> py_in ''prompt'' (case step_do step_empty of None \<Rightarrow> [] | Some d \<Rightarrow> d)"
    by (simp add: py_in_def step_empty_def)
  have 9: "workflow_step (demo_agent [step_empty]) + 1 = 1" by (simp add: demo_agent_def)
  have a: "MicroAgent_init demo_env \<lparr>agent_name = None, workflow = Some [step_empty]\<rparr> [] =
     Inl (ValueError ''Agent definition must contain a name'')"
    by (rule definition_errors[THEN conjunct1, rule_format, OF 0])
  have "MicroAgent_init demo_env \<lparr>agent_name = Some ''demo'', workflow = Some [step_empty]\<rparr> [] =
     Inr \<lparr>agent_definition = \<lparr>agent_name = Some ''demo'', workflow = Some [step_empty]\<rparr>, prompt = [],
             delegates = filter (\<lambda>kv. fst kv \<noteq> ''demo'') (all_microagents demo_env),
             workflow_step = 0, workflow_data = Map.empty\<rparr>"
    by (rule definition_errors[THEN conjunct2, THEN conjunct1, rule_format, OF 1 2])
  then have b: "MicroAgent_init demo_env \<lparr>agent_name = Some ''demo'', workflow = Some [step_empty]\<rparr> [] =
     Inr (demo_agent [step_empty])"
    by (simp add: demo_agent_def demo_env_def)
  have "step_workflow demo_env (demo_agent [step_empty]) (demo_state []) =
     (Inl (ValueError ''Step must contain either an action or a prompt''),
      (demo_agent [step_empty])\<lparr>workflow_step := workflow_step (demo_agent [step_empty]) + 1\<rparr>,
      demo_state [])"
    by (rule definition_errors[THEN conjunct2, THEN conjunct2, rule_format, OF 3 4 5 6 7 8])
  then have c: "step_workflow demo_env (demo_agent [step_empty]) (demo_state []) =
     (Inl (ValueError ''Step must contain either an action or a prompt''),
      (demo_agent [step_empty])\<lparr>workflow_step := 1\<rparr>, demo_state [])"
    by (simp only: 9)
  show ?thesis using a b c by blast
qed

text \<open>
  C6 as stated fails: construction succeeds for a workflow whose only step has an empty
  \<^verbatim>\<open>do\<close> mapping, and the error appears at the first call of \<^verbatim>\<open>step_workflow\<close>.
\<close>

theorem definition_errors_counterexample:
  "step_do step_empty = Some [] \<and>
   MicroAgent_init demo_env \<lparr>agent_name = Some ''demo'', workflow = Some [step_empty]\<rparr> [] =
     Inr (demo_agent [step_empty]) \<and>
   fst (step_workflow demo_env (demo_agent [step_empty]) (demo_state [])) =
     Inl (ValueError ''Step must contain either an action or a prompt'')"
  by (simp add: MicroAgent_init_def demo_agent_def demo_env_def py_in_def step_empty_def
      step_workflow_def py_getitem_def demo_state_def)

text \<open>
  C8. Once the step index has reached the length of the workflow, \<^verbatim>\<open>step_workflow\<close>
  returns \<^verbatim>\<open>AgentFinishAction\<close> whatever the log says, without validating the last step,
  and leaves the agent and the state as they were; so does every later call.
\<close>

theorem step_workflow_finished_stays:
  assumes "workflow (agent_definition self) = Some steps"
    and "int (length steps) \<le> workflow_step self"
  shows "step_workflow ev self st = (Inr (AgentFinishAction ev), self, st) \<and>
         run_workflow ev self sts = map (\<lambda>st'. (Inr (AgentFinishAction ev), self)) sts"
proof
  show "step_workflow ev self st = (Inr (AgentFinishAction ev), self, st)"
    using assms by (rule finished_call)
  show "run_workflow ev self sts = map (\<lambda>st'. (Inr (AgentFinishAction ev), self)) sts"
    by (induction sts) (simp_all add: finished_call[OF assms])
qed

theorem step_workflow_finished_stays_witness:
  "step_workflow demo_env ((demo_agent [step_s0])\<lparr>workflow_step := 1\<rparr>)
     (demo_state [(demo_run, CmdOutputObservation 1 ''boom'')]) =
     (Inr (AgentFinishAction demo_env), (demo_agent [step_s0])\<lparr>workflow_step := 1\<rparr>,
      demo_state [(demo_run, CmdOutputObservation 1 ''boom'')]) \<and>
   \<not> accepted demo_env step_s0 (demo_state [(demo_run, CmdOutputObservation 1 ''boom'')])"
proof -
  have 1: "workflow (agent_definition ((demo_agent [step_s0])\<lparr>workflow_step := 1\<rparr>)) = Some [step_s0]"
    by (simp add: demo_agent_def)
  have 2: "int (length [step_s0]) \<le> workflow_step ((demo_agent [step_s0])\<lparr>workflow_step := 1\<rparr>)"
    by simp
  have 3: "\<not> accepted demo_env step_s0 (demo_state [(demo_run, CmdOutputObservation 1 ''boom'')])"
    by (simp add: accepted_def matching_def acceptable_def step_s0_def demo_state_def demo_env_def
        demo_attr_def demo_run_def)
  show ?thesis
    using conjunct1[OF step_workflow_finished_stays[OF 1 2]] 3 by (rule conjI)
qed

text \<open>
  C10. When the \<^verbatim>\<open>do\<close> mapping of the step that is reached holds both \<^verbatim>\<open>action\<close> and
  \<^verbatim>\<open>prompt\<close>, \<^verbatim>\<open>step_workflow\<close> returns what the factory makes of the mapping, advances
  the step index and leaves the state untouched; the renderer and the completion
  service play no part in the result.
\<close>

theorem step_workflow_action_and_prompt:
  assumes "workflow (agent_definition self) = Some steps"
    and "workflow_step self < int (length steps)"
    and "(if workflow_step self > 0 then update_previous_workflow_step ev self st
          else (Inr True, self)) = (Inr True, self1)"
    and "py_getitem steps (workflow_step self1) = Inr stp"
    and "step_do stp = Some d"
    and "py_in ''action'' d" and "py_in ''prompt'' d"
  shows "step_workflow ev self st =
           (action_from_dict ev (PDict d), self1\<lparr>workflow_step := workflow_step self1 + 1\<rparr>, st) \<and>
         step_workflow (ev\<lparr>render := r, completion := c\<rparr>) self st = step_workflow ev self st"
proof -
  let ?ev = "ev\<lparr>render := r, completion := c\<rparr>"
  have a: "step_workflow ev self st =
           (action_from_dict ev (PDict d), self1\<lparr>workflow_step := workflow_step self1 + 1\<rparr>, st)"
    unfolding step_workflow_reaches[OF assms(1-4)]
    by (simp add: assms(5,6) Let_def split: sum.splits)
  have e: "update_previous_workflow_step ?ev self st = update_previous_workflow_step ev self st"
    by (rule update_previous_env) simp
  have v: "(if workflow_step self > 0 then update_previous_workflow_step ?ev self st
          else (Inr True, self)) = (Inr True, self1)"
    unfolding e by (rule assms(3))
  have b: "step_workflow ?ev self st =
           (action_from_dict ?ev (PDict d), self1\<lparr>workflow_step := workflow_step self1 + 1\<rparr>, st)"
    unfolding step_workflow_reaches[OF assms(1,2) v assms(4)]
    by (simp add: assms(5,6) Let_def split: sum.splits)
  show ?thesis using a b by simp
qed

theorem step_workflow_action_and_prompt_witness:
  "step_workflow demo_env (demo_agent [step_both]) (demo_state []) =
     (Inr (PDict [(''action'', PStr ''run''), (''prompt'', PStr ''say done'')]),
      (demo_agent [step_both])\<lparr>workflow_step := 1\<rparr>, demo_state [])"
proof -
  have 1: "workflow (agent_definition (demo_agent [step_both])) = Some [step_both]"
    by (simp add: demo_agent_def)
  have 2: "workflow_step (demo_agent [step_both]) < int (length [step_both])"
    by (simp add: demo_agent_def)
  have 3: "(if workflow_step (demo_agent [step_both]) > 0
            then update_previous_workflow_step demo_env (demo_agent [step_both]) (demo_state [])
            else (Inr True, demo_agent [step_both])) = (Inr True, demo_agent [step_both])"
    by (simp add: demo_agent_def)
  have 4: "py_getitem [step_both] (workflow_step (demo_agent [step_both])) = Inr step_both"
    by (simp add: demo_agent_def py_getitem_def)
  have 5: "step_do step_both = Some [(''action'', PStr ''run''), (''prompt'', PStr ''say done'')]"
    by (simp add: step_both_def)
  have 6: "py_in ''action'' [(''action'', PStr ''run''), (''prompt'', PStr ''say done'')]"
    by (simp add: py_in_def)
  have 7: "py_in ''prompt'' [(''action'', PStr ''run''), (''prompt'', PStr ''say done'')]"
    by (simp add: py_in_def)
  have 8: "action_from_dict demo_env (PDict [(''action'', PStr ''run''), (''prompt'', PStr ''say done'')]) =
           Inr (PDict [(''action'', PStr ''run''), (''prompt'', PStr ''say done'')])"
    by (simp add: demo_env_def demo_factory_def)
  have 9: "workflow_step (demo_agent [step_both]) + 1 = 1" by (simp add: demo_agent_def)
  show ?thesis
    using conjunct1[OF step_workflow_action_and_prompt[OF 1 2 3 4 5 6 7, where r = demo_render and c = "completion demo_env"]]
    by (simp only: 8 9)
qed

end
